theory Spec2Isabelle
  imports Main "HOL-Library.Char_ord" "HOL-Library.List_Lexorder" "HOL-Library.Sublist"
begin

section \<open>Strings and utilities of cobalt.hpp\<close>

text \<open>
  \<open>std::string\<close> is a sequence of bytes: \<open>string\<close>. \<open>Arguments\<close> is
  \<open>std::vector<std::string>\<close>. The order on strings used by \<open>std::map\<close> and by
  \<open>std::lexicographical_compare\<close> is the lexicographic order on bytes, which is the
  order of \<open>HOL-Library.List_Lexorder\<close> over \<open>HOL-Library.Char_ord\<close>.
\<close>

type_synonym Arguments = "string list"

definition is_trim_char :: "char \<Rightarrow> bool" where
  "is_trim_char c = (c = CHR '' '' \<or> c = CHR 0x0A \<or> c = CHR 0x0D \<or> c = CHR 0x09)"

text \<open>\<open>Ltrim\<close>: while the string is not empty and starts with a blank, drop the first byte.\<close>

fun Ltrim :: "string \<Rightarrow> string" where
  "Ltrim [] = []"
| "Ltrim (c # s) = (if is_trim_char c then Ltrim s else c # s)"

text \<open>\<open>Rtrim\<close>: while the string is not empty and ends with a blank, drop the last byte.\<close>

function Rtrim :: "string \<Rightarrow> string" where
  "Rtrim s = (if s \<noteq> [] \<and> is_trim_char (last s) then Rtrim (butlast s) else s)"
  by pat_completeness auto
termination
  by (relation "measure length") auto

declare Rtrim.simps [simp del]

definition Trim :: "string \<Rightarrow> string" where
  "Trim s = Rtrim (Ltrim s)"

text \<open>\<open>std::tolower\<close> in the "C" locale: the 26 upper-case letters move, every other byte stays.\<close>

definition tolower :: "char \<Rightarrow> char" where
  "tolower c = (if CHR ''A'' \<le> c \<and> c \<le> CHR ''Z'' then char_of (of_char c + (32::nat)) else c)"

definition ToLowerCase :: "string \<Rightarrow> string" where
  "ToLowerCase s = map tolower s"

text \<open>
  \<open>std::string::find(pat)\<close>: the first position at which \<open>pat\<close> occurs, \<open>None\<close> for
  \<open>npos\<close>.
\<close>

fun find_from :: "nat \<Rightarrow> string \<Rightarrow> string \<Rightarrow> nat option" where
  "find_from i pat [] = (if pat = [] then Some i else None)"
| "find_from i pat (c # s) = (if prefix pat (c # s) then Some i else find_from (Suc i) pat s)"

definition str_find :: "string \<Rightarrow> string \<Rightarrow> nat option" where
  "str_find s pat = find_from 0 pat s"

section \<open>The flag map: \<open>std::map<std::string, std::string>\<close>\<close>

text \<open>
  A \<open>std::map\<close> iterates in ascending key order and holds one entry per key. It is an
  association list kept sorted by key. \<open>std::map::insert\<close> leaves the map as it is when
  the key is already present.
\<close>

type_synonym flagmap = "(string \<times> string) list"

fun map_insert :: "string \<times> string \<Rightarrow> flagmap \<Rightarrow> flagmap" where
  "map_insert (k, v) [] = [(k, v)]"
| "map_insert (k, v) ((k', v') # m) =
     (if k = k' then (k', v') # m
      else if k < k' then (k, v) # (k', v') # m
      else (k', v') # map_insert (k, v) m)"

section \<open>\<open>StripFlags\<close>\<close>

text \<open>
  The test of line 99: the trimmed token contains \<open>"--"\<close> or contains \<open>"-"\<close>.
\<close>

definition is_flag_arg :: "string \<Rightarrow> bool" where
  "is_flag_arg arg = (str_find arg ''--'' \<noteq> None \<or> str_find arg ''-'' \<noteq> None)"

text \<open>
  The pair \<open>newFlag\<close> of lines 100 to 109: the text before the first \<open>=\<close> and the text
  after it, or the whole token and \<open>"true"\<close>.
\<close>

definition newFlag :: "string \<Rightarrow> string \<times> string" where
  "newFlag arg =
     (case str_find arg ''='' of
        Some pos \<Rightarrow> (take pos arg, drop (pos + 1) arg)
      | None \<Rightarrow> (arg, ''true''))"

text \<open>\<open>if (flags) flags->insert(newFlag)\<close>: the map pointer may be null.\<close>

definition insert_flag :: "string \<times> string \<Rightarrow> flagmap option \<Rightarrow> flagmap option" where
  "insert_flag kv fl = (case fl of None \<Rightarrow> None | Some m \<Rightarrow> Some (map_insert kv m))"

definition erase :: "nat \<Rightarrow> 'a list \<Rightarrow> 'a list" where
  "erase i xs = take i xs @ drop (Suc i) xs"

text \<open>
  The loop of \<open>StripFlags\<close>. After an erase the source decrements \<open>i\<close> and the loop
  header increments it again, so the index stays where it is; otherwise it advances.
\<close>

function StripFlags_loop :: "nat \<Rightarrow> Arguments \<Rightarrow> flagmap option \<Rightarrow> Arguments \<times> flagmap option" where
  "StripFlags_loop i args fl =
     (if i < length args then
        (if is_flag_arg (Trim (args ! i))
         then StripFlags_loop i (erase i args) (insert_flag (newFlag (Trim (args ! i))) fl)
         else StripFlags_loop (Suc i) args fl)
      else (args, fl))"
  by pat_completeness auto
termination
  by (relation "measure (\<lambda>(i, args, fl). length args - i)") (auto simp: erase_def)

declare StripFlags_loop.simps [simp del]

definition StripFlags :: "Arguments \<Rightarrow> flagmap option \<Rightarrow> Arguments \<times> flagmap option" where
  "StripFlags args fl = StripFlags_loop 0 args fl"

section \<open>Typed flags\<close>

text \<open>
  Exceptions are values. \<open>std::stoi\<close> throws \<open>std::invalid_argument\<close> or
  \<open>std::out_of_range\<close>, \<open>std::string::substr\<close> throws \<open>std::out_of_range\<close>; a
  hook or a setter supplied by the user may throw anything (\<open>other_exception\<close>).
\<close>

datatype exn =
    UnknownFlagException string
  | NotRunnableException
  | invalid_argument
  | out_of_range
  | other_exception string

text \<open>
  The enumeration \<open>Types\<close>. Its members carry the prefix \<open>T_\<close>, since \<open>INT\<close> and
  \<open>CHAR\<close> are reserved words of the logic's syntax.
\<close>

datatype Types = T_BOOL | T_INT | T_FLOAT | T_CHAR | T_STRING | T_UNDETERMINED

text \<open>
  \<open>std::stoi(value)\<close>, base 10, as \<open>strtol\<close> reads it: leading white space is skipped,
  one sign is accepted, the longest run of digits is the number and what follows is
  ignored. No digit: \<open>invalid_argument\<close>. A number outside the 32-bit \<open>int\<close>:
  \<open>out_of_range\<close>.
\<close>

definition isspace :: "char \<Rightarrow> bool" where
  "isspace c = (c = CHR '' '' \<or> c = CHR 0x09 \<or> c = CHR 0x0A \<or> c = CHR 0x0B \<or> c = CHR 0x0C \<or> c = CHR 0x0D)"

definition isdigit :: "char \<Rightarrow> bool" where
  "isdigit c = (CHR ''0'' \<le> c \<and> c \<le> CHR ''9'')"

definition digit_value :: "char \<Rightarrow> int" where
  "digit_value c = int (of_char c) - 48"

definition digits_value :: "string \<Rightarrow> int" where
  "digits_value ds = foldl (\<lambda>acc c. acc * 10 + digit_value c) 0 ds"

definition stoi :: "string \<Rightarrow> exn + int" where
  "stoi s =
     (let s1 = dropWhile isspace s;
          negative = (case s1 of [] \<Rightarrow> False | c # _ \<Rightarrow> c = CHR ''-'');
          s2 = (case s1 of [] \<Rightarrow> [] | c # r \<Rightarrow> if c = CHR ''-'' \<or> c = CHR ''+'' then r else s1);
          ds = takeWhile isdigit s2;
          v = (if negative then - digits_value ds else digits_value ds)
      in if ds = [] then Inl invalid_argument
         else if v < - 2147483648 \<or> 2147483647 < v then Inl out_of_range
         else Inr v)"

text \<open>\<open>std::to_string(int)\<close>: the decimal digits, after a \<open>-\<close> for a negative number.\<close>

fun nat_digits :: "nat \<Rightarrow> string" where
  "nat_digits n =
     (if n < 10 then [char_of (48 + n)] else nat_digits (n div 10) @ [char_of (48 + n mod 10)])"

declare nat_digits.simps [simp del]

definition to_string :: "int \<Rightarrow> string" where
  "to_string i = (if i < 0 then CHR ''-'' # nat_digits (nat (- i)) else nat_digits (nat i))"

text \<open>
  \<open>TypeToEnum<T>\<close>: the tag of a C++ type, the conversion from a string (the value that
  \<open>Convert\<close> assigns to its reference argument, or the exception it throws) and the
  conversion to a string. The instances for \<open>bool\<close>, \<open>char\<close>, \<open>int\<close> and
  \<open>std::string\<close> are given; \<open>short\<close>, \<open>long\<close> and \<open>long long\<close> convert through
  \<open>std::stoi\<close> like \<open>int\<close>, and the floating-point instances are left out.
\<close>

record 't TypeToEnum =
  Value :: Types
  Convert :: "string \<Rightarrow> exn + 't"
  From :: "'t \<Rightarrow> string"

definition TypeToEnum_bool :: "bool TypeToEnum" where
  "TypeToEnum_bool =
     \<lparr>Value = T_BOOL,
      Convert = (\<lambda>v. Inr (if v = ''true'' then True else False)),
      From = (\<lambda>v. if v then ''true'' else ''false'')\<rparr>"

definition TypeToEnum_char :: "char TypeToEnum" where
  "TypeToEnum_char =
     \<lparr>Value = T_CHAR,
      Convert = (\<lambda>v. Inr (case v of [] \<Rightarrow> CHR 0x00 | c # _ \<Rightarrow> c)),
      From = (\<lambda>c. [c])\<rparr>"

definition TypeToEnum_int :: "int TypeToEnum" where
  "TypeToEnum_int = \<lparr>Value = T_INT, Convert = stoi, From = to_string\<rparr>"

definition TypeToEnum_string :: "string TypeToEnum" where
  "TypeToEnum_string = \<lparr>Value = T_STRING, Convert = (\<lambda>v. Inr v), From = (\<lambda>s. s)\<rparr>"

text \<open>
  A setter is a \<open>std::function<void(std::string)>\<close>: it acts on storage that
  the flag does not own. The storage is the state \<open>'st\<close>; a setter returns the new
  state and the exception it threw, if any.
\<close>

type_synonym 'st Setter_t = "string \<Rightarrow> 'st \<Rightarrow> exn option \<times> 'st"

record 'st Flag =
  Type :: Types
  Short :: string
  Long :: string
  Description :: string
  Setter :: "'st Setter_t"

text \<open>
  \<open>std::bind(TypeToEnum<T>::Convert, std::ref(Reference), _1)\<close>: convert the string and
  assign the result to the referenced variable. The reference is given by the function
  that writes the variable in the state.
\<close>

definition bind_Convert :: "'t TypeToEnum \<Rightarrow> ('t \<Rightarrow> 'st \<Rightarrow> 'st) \<Rightarrow> 'st Setter_t" where
  "bind_Convert T Reference v st =
     (case Convert T v of Inl e \<Rightarrow> (Some e, st) | Inr r \<Rightarrow> (None, Reference r st))"

text \<open>
  Class \<open>Flags\<close>: the vector \<open>flags\<close> of shared pointers to immutable \<open>Flag\<close> objects
  (modelled by the objects themselves) and the public member \<open>ContinueOnError\<close>.
\<close>

record 'st Flags =
  flags :: "'st Flag list"
  ContinueOnError :: bool

text \<open>\<open>Add(type, Long, Short, Description, Setter)\<close>, lines 286 to 298.\<close>

definition Add :: "Types \<Rightarrow> string \<Rightarrow> string \<Rightarrow> string \<Rightarrow> 'st Setter_t \<Rightarrow> 'st Flags \<Rightarrow> 'st Flags" where
  "Add ty Lng Shrt Descr Sett F =
     F\<lparr>flags := flags F @ [\<lparr>Type = ty, Short = Shrt, Long = Lng, Description = Descr, Setter = Sett\<rparr>]\<rparr>"

text \<open>
  \<open>Add<T>(Long, Short, Default, Description, Setter)\<close>, lines 300 to 306: register, then
  call the setter with the string form of the default.
\<close>

definition Add_default ::
  "'t TypeToEnum \<Rightarrow> string \<Rightarrow> string \<Rightarrow> 't \<Rightarrow> string \<Rightarrow> 'st Setter_t \<Rightarrow> 'st Flags \<Rightarrow> 'st
     \<Rightarrow> 'st Flags \<times> exn option \<times> 'st" where
  "Add_default T Lng Shrt Default Descr Sett F st =
     (Add (Value T) Lng Shrt Descr Sett F, Sett (From T Default) st)"

text \<open>\<open>Add<T>(Reference, Long, Short, Description)\<close>, lines 311 to 314.\<close>

definition Add_ref ::
  "'t TypeToEnum \<Rightarrow> ('t \<Rightarrow> 'st \<Rightarrow> 'st) \<Rightarrow> string \<Rightarrow> string \<Rightarrow> string \<Rightarrow> 'st Flags \<Rightarrow> 'st Flags" where
  "Add_ref T Reference Lng Shrt Descr F = Add (Value T) Lng Shrt Descr (bind_Convert T Reference) F"

text \<open>
  \<open>Add<T>(Reference, Long, Short, Default, Description)\<close>, lines 316 to 323: register,
  then assign the default to the referenced variable.
\<close>

definition Add_ref_default ::
  "'t TypeToEnum \<Rightarrow> ('t \<Rightarrow> 'st \<Rightarrow> 'st) \<Rightarrow> string \<Rightarrow> string \<Rightarrow> 't \<Rightarrow> string \<Rightarrow> 'st Flags \<Rightarrow> 'st
     \<Rightarrow> 'st Flags \<times> 'st" where
  "Add_ref_default T Reference Lng Shrt Default Descr F st =
     (Add_ref T Reference Lng Shrt Descr F, Reference Default st)"

text \<open>\<open>Add(std::shared_ptr<Flag>)\<close>, lines 325 to 327.\<close>

definition Add_ptr :: "'st Flag \<Rightarrow> 'st Flags \<Rightarrow> 'st Flags" where
  "Add_ptr flag F = F\<lparr>flags := flags F @ [flag]\<rparr>"

text \<open>\<open>Lookup\<close>: the first flag whose long name is \<open>name\<close>, \<open>None\<close> for \<open>nullptr\<close>.\<close>

definition Lookup :: "'st Flags \<Rightarrow> string \<Rightarrow> 'st Flag option" where
  "Lookup F name = find (\<lambda>f. Long f = name) (flags F)"

definition Size :: "'st Flags \<Rightarrow> nat" where
  "Size F = length (flags F)"

text \<open>
  \<open>Parse\<close>, lines 356 to 384, one entry of the map after the other in key order. The
  source reads \<open>pair.first[1]\<close>: for a key of one byte this is the terminating NUL, which
  is not a dash; for the empty key the read is outside the string and whichever branch is
  taken, \<open>substr(1)\<close> or \<open>substr(2)\<close> then throws \<open>std::out_of_range\<close>. An exception
  leaves the loop; the setters already called have had their effect.
\<close>

definition second_is_dash :: "string \<Rightarrow> bool" where
  "second_is_dash k = (case k of _ # c # _ \<Rightarrow> c = CHR ''-'' | _ \<Rightarrow> False)"

definition find_flag :: "'st Flag list \<Rightarrow> string \<Rightarrow> 'st Flag option" where
  "find_flag fs k =
     (if second_is_dash k then find (\<lambda>flag. Long flag = drop 2 k) fs
      else find (\<lambda>flag. Short flag = drop 1 k) fs)"

fun Parse_loop :: "'st Flag list \<Rightarrow> flagmap \<Rightarrow> 'st \<Rightarrow> exn option \<times> 'st" where
  "Parse_loop fs [] st = (None, st)"
| "Parse_loop fs ((k, v) # rest) st =
     (if k = [] then (Some out_of_range, st)
      else case find_flag fs k of
             None \<Rightarrow>
               (Some (UnknownFlagException
                  (''Unknown flag: '' @ (if second_is_dash k then drop 2 k else drop 1 k))), st)
           | Some flag \<Rightarrow>
               (case Setter flag v st of
                  (Some e, st') \<Rightarrow> (Some e, st')
                | (None, st') \<Rightarrow> Parse_loop fs rest st'))"

definition Parse :: "'st Flags \<Rightarrow> flagmap \<Rightarrow> 'st \<Rightarrow> exn option \<times> 'st" where
  "Parse F m st = Parse_loop (flags F) m st"

section \<open>\<open>LevenshteinDistance\<close>\<close>

text \<open>
  The single-row dynamic program of lines 127 to 158. \<open>column\<close> is an array of
  \<open>s1len + 1\<close> integers; \<open>std::iota\<close> fills the cells \<open>1\<close> to \<open>s1len\<close> and leaves
  cell \<open>0\<close> as \<open>new\<close> returned it, so the initial content of cell \<open>0\<close> is the
  parameter \<open>junk\<close>. Lengths and distances are C++ \<open>int\<close>s; they stay below the
  longer string's length, so the model computes in \<open>int\<close> without wrap-around.
\<close>

definition min3 :: "int \<Rightarrow> int \<Rightarrow> int \<Rightarrow> int" where
  "min3 a b c = min (min a b) c"

function lev_inner :: "string \<Rightarrow> string \<Rightarrow> nat \<Rightarrow> nat \<Rightarrow> int list \<Rightarrow> int \<Rightarrow> int list" where
  "lev_inner s t x y column last_diagonal =
     (if y \<le> length s then
        lev_inner s t x (Suc y)
          (column[y := min3 (column ! y + 1) (column ! (y - 1) + 1)
                          (last_diagonal + (if s ! (y - 1) = t ! (x - 1) then 0 else 1))])
          (column ! y)
      else column)"
  by pat_completeness auto
termination
  by (relation "measure (\<lambda>(s, t, x, y, column, last_diagonal). Suc (length s) - y)") auto

declare lev_inner.simps [simp del]

function lev_outer :: "string \<Rightarrow> string \<Rightarrow> nat \<Rightarrow> int list \<Rightarrow> int list" where
  "lev_outer s t x column =
     (if x \<le> length t then
        lev_outer s t (Suc x) (lev_inner s t x 1 (column[0 := int x]) (int x - 1))
      else column)"
  by pat_completeness auto
termination
  by (relation "measure (\<lambda>(s, t, x, column). Suc (length t) - x)") auto

declare lev_outer.simps [simp del]

definition LevenshteinDistance :: "int \<Rightarrow> string \<Rightarrow> string \<Rightarrow> bool \<Rightarrow> int" where
  "LevenshteinDistance junk s0 t0 ignoreCase =
     (let s = (if ignoreCase then ToLowerCase s0 else s0);
          t = (if ignoreCase then ToLowerCase t0 else t0);
          column = junk # map int [1..<Suc (length s)]
      in lev_outer s t 1 column ! length s)"

text \<open>
  The distance the source refers to (the recurrence of the Wikipedia article it cites):
  \<open>lev s t i j\<close> is the edit distance between the first \<open>i\<close> characters of \<open>s\<close> and the
  first \<open>j\<close> characters of \<open>t\<close>.
\<close>

fun lev :: "'a list \<Rightarrow> 'a list \<Rightarrow> nat \<Rightarrow> nat \<Rightarrow> nat" where
  "lev s t 0 j = j"
| "lev s t (Suc i) 0 = Suc i"
| "lev s t (Suc i) (Suc j) =
     min (min (lev s t i (Suc j) + 1) (lev s t (Suc i) j + 1))
         (lev s t i j + (if s ! i = t ! j then 0 else 1))"

definition Levenshtein :: "'a list \<Rightarrow> 'a list \<Rightarrow> nat" where
  "Levenshtein s t = lev s t (length s) (length t)"

section \<open>Commands\<close>

text \<open>
  A hook is a \<open>std::function<int(const Arguments&)>\<close>: it returns an \<open>int\<close> or throws,
  and acts on the state. An empty \<open>std::function\<close> is \<open>None\<close>.
\<close>

type_synonym 'st HookType = "Arguments \<Rightarrow> 'st \<Rightarrow> (exn + int) \<times> 'st"

text \<open>
  Class \<open>detail::Command\<close>. The members \<open>Short\<close> and \<open>Long\<close> are \<open>Short_text\<close> and
  \<open>Long_text\<close> here (the names belong to \<open>Flag\<close> already). \<open>Output\<close> and \<open>Data\<close> are
  left out. The vector \<open>Commands\<close> owns the subcommands, and \<open>Parent\<close> is the position
  in the tree: a \<open>PointerType\<close> is a command together with the chain of its parents.
\<close>

record 'st Command_members =
  Use :: string
  Aliases :: "string list"
  Short_text :: string
  Long_text :: string
  Example :: string
  Deprecated :: string
  Hidden :: bool
  Annotations :: "(string \<times> string) list"
  PersistentFlags :: "'st Flags"
  LocalFlags :: "'st Flags"
  SilenceErrors :: bool
  SilenceUsage :: bool
  PersistentPreRun :: "'st HookType option"
  PreRun :: "'st HookType option"
  Run :: "'st HookType option"
  PostRun :: "'st HookType option"
  PersistentPostRun :: "'st HookType option"
  IsSorted :: bool

datatype 'st Command = Command (members: "'st Command_members") (Commands: "'st Command list")

text \<open>
  One link of the \<open>Parent\<close> chain: the parent's own members, and its subcommands before
  and after the command the chain comes from.
\<close>

record 'st Frame =
  frame_members :: "'st Command_members"
  frame_before :: "'st Command list"
  frame_after :: "'st Command list"

type_synonym 'st PointerType = "'st Command \<times> 'st Frame list"

text \<open>\<open>cmd->Parent\<close>: \<open>None\<close> for the null pointer of the root.\<close>

fun Parent :: "'st PointerType \<Rightarrow> 'st PointerType option" where
  "Parent (c, []) = None"
| "Parent (c, fr # up) = Some (Command (frame_members fr) (frame_before fr @ c # frame_after fr), up)"

fun Root :: "'st PointerType \<Rightarrow> 'st PointerType" where
  "Root (c, []) = (c, [])"
| "Root (c, fr # up) = Root (Command (frame_members fr) (frame_before fr @ c # frame_after fr), up)"

text \<open>\<open>Name\<close>: the use line up to its first space.\<close>

definition Name :: "'st Command_members \<Rightarrow> string" where
  "Name f = (case str_find (Use f) '' '' of None \<Rightarrow> Use f | Some pos \<Rightarrow> take pos (Use f))"

definition HasAlias :: "'st Command_members \<Rightarrow> string \<Rightarrow> bool" where
  "HasAlias f name = list_ex (\<lambda>alias. alias = name) (Aliases f)"

definition IsRunnable :: "'st Command_members \<Rightarrow> bool" where
  "IsRunnable f = (case Run f of None \<Rightarrow> False | Some _ \<Rightarrow> True)"

fun IsAvailableCommand :: "'st Command \<Rightarrow> bool"
  and HasAvailableSubCommands_loop :: "'st Command list \<Rightarrow> bool" where
  "IsAvailableCommand (Command f cs) =
     (if 0 < length (Deprecated f) \<or> Hidden f then False
      else if IsRunnable f \<or> HasAvailableSubCommands_loop cs then True
      else False)"
| "HasAvailableSubCommands_loop [] = False"
| "HasAvailableSubCommands_loop (cmd # cmds) =
     (if IsAvailableCommand cmd then True else HasAvailableSubCommands_loop cmds)"

definition HasAvailableSubCommands :: "'st Command \<Rightarrow> bool" where
  "HasAvailableSubCommands c = HasAvailableSubCommands_loop (Commands c)"

text \<open>\<open>CommandPath\<close>: the names from the root down to the command, separated by spaces.\<close>

fun CommandPath_loop :: "string \<Rightarrow> 'st Frame list \<Rightarrow> string" where
  "CommandPath_loop path [] = path"
| "CommandPath_loop path (fr # up) = CommandPath_loop (Name (frame_members fr) @ '' '' @ path) up"

definition CommandPath :: "'st PointerType \<Rightarrow> string" where
  "CommandPath p = CommandPath_loop (Name (members (fst p))) (snd p)"

section \<open>Flag inheritance\<close>

text \<open>
  The loop shared by \<open>InheritedFlags\<close>, \<open>MergePersistentFlags\<close> and \<open>FullFlags\<close>: add
  each flag of \<open>src\<close> whose long name \<open>Lookup\<close> does not find in the target.
\<close>

definition merge_flags :: "'st Flag list \<Rightarrow> 'st Flags \<Rightarrow> 'st Flags" where
  "merge_flags src target =
     fold (\<lambda>flag r. case Lookup r (Long flag) of None \<Rightarrow> Add_ptr flag r | Some _ \<Rightarrow> r) src target"

text \<open>
  \<open>InheritedFlags\<close>, lines 564 to 582. The lambda \<open>rmerge\<close> is applied to the parent
  and calls itself on the next parent inside the test \<open>Size() > 0\<close>. The list holds the
  members of the parent, of its parent, and so on up to the root. \<open>Flags result\<close> is
  default-initialised: its vector is empty and its \<open>ContinueOnError\<close> is whatever the
  memory holds, the parameter \<open>indet\<close>.
\<close>

fun InheritedFlags_rmerge :: "'st Command_members list \<Rightarrow> 'st Flags \<Rightarrow> 'st Flags" where
  "InheritedFlags_rmerge [] result = result"
| "InheritedFlags_rmerge (cmd # up) result =
     (if 0 < Size (PersistentFlags cmd)
      then InheritedFlags_rmerge up (merge_flags (flags (PersistentFlags cmd)) result)
      else result)"

definition InheritedFlags :: "bool \<Rightarrow> 'st PointerType \<Rightarrow> 'st Flags" where
  "InheritedFlags indet p =
     InheritedFlags_rmerge (map frame_members (snd p)) \<lparr>flags = [], ContinueOnError = indet\<rparr>"

text \<open>
  \<open>MergePersistentFlags\<close>, lines 604 to 620. The lambda \<open>rmerge\<close> is applied to the
  command itself and calls itself on the parent after, not inside, the test
  \<open>Size() > 0\<close>. The target is the command's own \<open>PersistentFlags\<close>.
\<close>

fun MergePersistentFlags_rmerge :: "'st Command_members list \<Rightarrow> 'st Flags \<Rightarrow> 'st Flags" where
  "MergePersistentFlags_rmerge [] target = target"
| "MergePersistentFlags_rmerge (cmd # up) target =
     MergePersistentFlags_rmerge up
       (if 0 < Size (PersistentFlags cmd) then merge_flags (flags (PersistentFlags cmd)) target
        else target)"

definition MergePersistentFlags :: "'st PointerType \<Rightarrow> 'st PointerType" where
  "MergePersistentFlags p =
     (case p of (Command f cs, up) \<Rightarrow>
        (Command
           (f\<lparr>PersistentFlags :=
                MergePersistentFlags_rmerge (f # map frame_members up) (PersistentFlags f)\<rparr>)
           cs, up))"

text \<open>
  \<open>FullFlags\<close>, lines 584 to 598: merge, then a copy of \<open>LocalFlags\<close> extended by the
  persistent flags whose long names it does not hold. It returns the registry and leaves
  the command with its merged \<open>PersistentFlags\<close>.
\<close>

definition FullFlags :: "'st PointerType \<Rightarrow> 'st Flags \<times> 'st PointerType" where
  "FullFlags p =
     (let p' = MergePersistentFlags p;
          f = members (fst p')
      in (merge_flags (flags (PersistentFlags f)) (LocalFlags f), p'))"

definition HasAvailableFlags :: "'st PointerType \<Rightarrow> bool \<times> 'st PointerType" where
  "HasAvailableFlags p = (0 < Size (fst (FullFlags p)), snd (FullFlags p))"

section \<open>Sorting and adding subcommands\<close>

text \<open>
  \<open>SortSubCommands\<close>, lines 622 to 633: nothing when \<open>IsSorted\<close> holds, else
  \<open>std::sort\<close> by name and \<open>IsSorted = true\<close>. \<open>std::sort\<close> leaves the order of
  subcommands with equal names open; the model keeps their order.
\<close>

definition SortSubCommands :: "'st Command \<Rightarrow> 'st Command" where
  "SortSubCommands c =
     (if IsSorted (members c) then c
      else Command ((members c)\<lparr>IsSorted := True\<rparr>) (sort_key (\<lambda>a. Name (members a)) (Commands c)))"

text \<open>
  \<open>AddCommand\<close>, lines 727 to 732: the subcommand gets this command as its parent (its
  place in \<open>Commands\<close>), is pushed at the back, and \<open>SortSubCommands\<close> is called.
\<close>

definition AddCommand :: "'st Command \<Rightarrow> 'st Command \<Rightarrow> 'st Command" where
  "AddCommand cmd c = SortSubCommands (Command (members c) (Commands c @ [cmd]))"

section \<open>Suggestions\<close>

text \<open>\<open>SuggestionsFor\<close>, lines 710 to 725.\<close>

fun SuggestionsFor_loop :: "int \<Rightarrow> string \<Rightarrow> 'st Command list \<Rightarrow> string list" where
  "SuggestionsFor_loop junk name [] = []"
| "SuggestionsFor_loop junk name (cmd # cmds) =
     (if \<not> IsAvailableCommand cmd then SuggestionsFor_loop junk name cmds
      else if LevenshteinDistance junk name (Name (members cmd)) True \<le> 2
              \<or> take (length name) (ToLowerCase (Name (members cmd))) = ToLowerCase name
           then Name (members cmd) # SuggestionsFor_loop junk name cmds
           else SuggestionsFor_loop junk name cmds)"

definition SuggestionsFor :: "int \<Rightarrow> 'st Command \<Rightarrow> string \<Rightarrow> string list" where
  "SuggestionsFor junk c name = SuggestionsFor_loop junk name (Commands c)"

section \<open>\<open>Execute\<close>\<close>

text \<open>
  What a dispatch does besides returning is recorded as a list of events: the text
  written to \<open>std::cerr\<close>, a usage display (by the command path of the command whose
  \<open>Usage\<close> ran; the layout of the text is not modelled) and each hook that was called,
  with the command path of its command and its arguments. The hooks and the setters act
  on the state \<open>'st\<close>.
\<close>

datatype hook = PersistentPreRun_hook | PreRun_hook | Run_hook | PostRun_hook | PersistentPostRun_hook

datatype event = Stderr string | UsageOutput string | Invoked hook string Arguments

record 'st Outcome =
  returned :: "exn + int"
  tree :: "'st Command"
  state :: 'st
  events :: "event list"

text \<open>
  \<open>Usage\<close>, lines 475 to 537: it writes the usage text; on a runnable command it calls
  \<open>HasAvailableFlags\<close>, whose \<open>FullFlags\<close> merges the persistent flags.
\<close>

definition Usage :: "'st PointerType \<Rightarrow> event list \<times> 'st PointerType" where
  "Usage p =
     ([UsageOutput (CommandPath p)],
      if IsRunnable (members (fst p)) then snd (HasAvailableFlags p) else p)"

text \<open>
  The inner loop of lines 773 to 782: the first available subcommand whose name or
  alias is the argument, with the subcommands before and after it.
\<close>

fun find_cmd ::
  "string \<Rightarrow> 'st Command list \<Rightarrow> 'st Command list
     \<Rightarrow> ('st Command list \<times> 'st Command \<times> 'st Command list) option" where
  "find_cmd arg before [] = None"
| "find_cmd arg before (cmd # rest) =
     (if \<not> IsAvailableCommand cmd then find_cmd arg (before @ [cmd]) rest
      else if Name (members cmd) = arg \<or> HasAlias (members cmd) arg then Some (before, cmd, rest)
      else find_cmd arg (before @ [cmd]) rest)"

text \<open>
  The outer loop of lines 761 to 785. \<open>this\<close> is the root, on which the source tests
  \<open>HasAvailableSubCommands()\<close>; \<open>tmp\<close> is the command reached so far.
\<close>

fun resolve :: "'st Command \<Rightarrow> 'st PointerType \<Rightarrow> Arguments \<Rightarrow> 'st PointerType \<times> Arguments" where
  "resolve this tmp [] = (tmp, [])"
| "resolve this tmp (arg # args) =
     (if \<not> HasAvailableSubCommands this then (tmp, arg # args)
      else case find_cmd arg [] (Commands (fst tmp)) of
             None \<Rightarrow> (tmp, arg # args)
           | Some (before, cmd, rest) \<Rightarrow>
               resolve this
                 (cmd, \<lparr>frame_members = members (fst tmp), frame_before = before, frame_after = rest\<rparr>
                       # snd tmp)
                 args)"

text \<open>The message of lines 789 to 799.\<close>

definition suggestionsString :: "string list \<Rightarrow> string" where
  "suggestionsString suggestions =
     (if 0 < length suggestions
      then [CHR 0x0A, CHR 0x0A] @ ''Did you mean this?'' @ [CHR 0x0A]
           @ concat (map (\<lambda>s. ''   '' @ s @ [CHR 0x0A]) suggestions)
      else [])"

definition unknown_command :: "int \<Rightarrow> 'st PointerType \<Rightarrow> string \<Rightarrow> string" where
  "unknown_command junk tmp arg =
     ''Unknown command '' @ arg @ '' for '' @ CommandPath tmp
       @ suggestionsString (SuggestionsFor junk (fst tmp) arg)"

text \<open>
  Lines 815 to 820: call \<open>Run\<close>; a \<open>NotRunnableException\<close> becomes a usage display and
  the status \<open>0\<close>, any other exception leaves \<open>Execute\<close>. The branch is entered only
  when \<open>Run\<close> is not empty; calling an empty \<open>std::function\<close> would throw.
\<close>

definition call_Run :: "'st PointerType \<Rightarrow> Arguments \<Rightarrow> 'st \<Rightarrow> 'st Outcome" where
  "call_Run tmp args st =
     (case Run (members (fst tmp)) of
        None \<Rightarrow>
          \<lparr>returned = Inl (other_exception ''bad_function_call''), tree = fst (Root tmp),
           state = st, events = []\<rparr>
      | Some run \<Rightarrow>
          (case run args st of
             (Inr n, st') \<Rightarrow>
               \<lparr>returned = Inr n, tree = fst (Root tmp), state = st',
                events = [Invoked Run_hook (CommandPath tmp) args]\<rparr>
           | (Inl NotRunnableException, st') \<Rightarrow>
               \<lparr>returned = Inr 0, tree = fst (Root (snd (Usage tmp))), state = st',
                events = Invoked Run_hook (CommandPath tmp) args # fst (Usage tmp)\<rparr>
           | (Inl e, st') \<Rightarrow>
               \<lparr>returned = Inl e, tree = fst (Root tmp), state = st',
                events = [Invoked Run_hook (CommandPath tmp) args]\<rparr>))"

text \<open>
  Lines 803 to 820: parse the flag map into \<open>FullFlags()\<close>; on any exception, unless
  \<open>FullFlags().ContinueOnError\<close> holds, show the usage and return \<open>-1\<close>; then run.
\<close>

definition parse_and_run :: "'st PointerType \<Rightarrow> flagmap \<Rightarrow> Arguments \<Rightarrow> 'st \<Rightarrow> 'st Outcome" where
  "parse_and_run tmp fm args st =
     (let ff = FullFlags tmp;
          parsed = Parse (fst ff) fm st
      in case fst parsed of
           None \<Rightarrow> call_Run (snd ff) args (snd parsed)
         | Some e \<Rightarrow>
             (let ff2 = FullFlags (snd ff)
              in if \<not> ContinueOnError (fst ff2)
                 then \<lparr>returned = Inr (- 1), tree = fst (Root (snd (Usage (snd ff2)))),
                       state = snd parsed, events = fst (Usage (snd ff2))\<rparr>
                 else call_Run (snd ff2) args (snd parsed)))"

text \<open>
  \<open>Execute\<close> on the root, lines 753 to 825. \<open>InjectHelpCommand\<close> builds a command
  that it attaches nowhere, so it changes nothing. \<open>tmp == Root()\<close> compares the
  command reached with the root: the chain of parents of \<open>tmp\<close> is empty.
\<close>

definition Execute_root :: "int \<Rightarrow> 'st Command \<Rightarrow> Arguments \<Rightarrow> 'st \<Rightarrow> 'st Outcome" where
  "Execute_root junk this args0 st =
     (let stripped = StripFlags args0 (Some []);
          fm = (case snd stripped of None \<Rightarrow> [] | Some m \<Rightarrow> m);
          found = resolve this (this, []) (fst stripped);
          tmp = fst found;
          args = snd found
      in if snd tmp = [] \<and> HasAvailableSubCommands (fst tmp) \<and> 0 < length args
         then \<lparr>returned = Inr (- 1), tree = fst (Root tmp), state = st,
               events = [Stderr (unknown_command junk tmp (args ! 0))]\<rparr>
         else if IsRunnable (members (fst tmp)) then parse_and_run tmp fm args st
         else \<lparr>returned = Inr 0, tree = fst (Root (snd (Usage tmp))), state = st,
               events = fst (Usage tmp)\<rparr>)"

text \<open>Line 749: whichever command \<open>Execute\<close> is called on, the root executes.\<close>

definition Execute :: "int \<Rightarrow> 'st PointerType \<Rightarrow> Arguments \<Rightarrow> 'st \<Rightarrow> 'st Outcome" where
  "Execute junk p args st =
     (case Parent p of
        Some _ \<Rightarrow> Execute_root junk (fst (Root p)) args st
      | None \<Rightarrow> Execute_root junk (fst p) args st)"

section \<open>Notions used in the statements\<close>

text \<open>
  The entries that the flag-classified tokens of a sequence stand for, in the order of the
  tokens.
\<close>

definition flag_entries :: "Arguments \<Rightarrow> (string \<times> string) list" where
  "flag_entries args = map (\<lambda>a. newFlag (Trim a)) (filter (\<lambda>a. is_flag_arg (Trim a)) args)"

text \<open>
  A command as \<open>std::make_shared<Command>()\<close> followed by \<open>Use = use\<close> leaves it:
  no alias, no flag, no hook, no subcommand. The members that the constructor does not
  initialise are taken to be \<open>False\<close>.
\<close>

definition new_Command :: "string \<Rightarrow> 'st Command_members" where
  "new_Command use =
     \<lparr>Use = use, Aliases = [], Short_text = [], Long_text = [], Example = [], Deprecated = [],
      Hidden = False, Annotations = [],
      PersistentFlags = \<lparr>flags = [], ContinueOnError = False\<rparr>,
      LocalFlags = \<lparr>flags = [], ContinueOnError = False\<rparr>,
      SilenceErrors = False, SilenceUsage = False,
      PersistentPreRun = None, PreRun = None, Run = None, PostRun = None,
      PersistentPostRun = None, IsSorted = False\<rparr>"

text \<open>
  The chain of three commands \<open>a\<close>, \<open>b\<close>, \<open>c\<close> in which only \<open>a\<close> declares a
  persistent flag, \<open>verbose\<close>, bound to a \<open>bool\<close> variable (the state); \<open>chain_C\<close> is
  the pointer to \<open>c\<close>.
\<close>

definition verbose_flag :: "bool Flag" where
  "verbose_flag =
     \<lparr>Type = T_BOOL, Short = ''v'', Long = ''verbose'', Description = ''more output'',
      Setter = bind_Convert TypeToEnum_bool (\<lambda>v st. v)\<rparr>"

definition chain_A :: "bool Command_members" where
  "chain_A = (new_Command ''a'')\<lparr>PersistentFlags := \<lparr>flags = [verbose_flag], ContinueOnError = False\<rparr>\<rparr>"

definition chain_C :: "bool PointerType" where
  "chain_C =
     (Command (new_Command ''c'') [],
      [\<lparr>frame_members = new_Command ''b'', frame_before = [], frame_after = []\<rparr>,
       \<lparr>frame_members = chain_A, frame_before = [], frame_after = []\<rparr>])"

text \<open>
  A registry holding one \<open>int\<close> flag \<open>count\<close>, \<open>c\<close>, bound to the variable at
  address \<open>r\<close> of a store of \<open>int\<close> variables.
\<close>

definition count_registry :: "nat \<Rightarrow> (nat \<Rightarrow> int) Flags" where
  "count_registry r =
     Add_ref TypeToEnum_int (\<lambda>v st. st(r := v)) ''count'' ''c'' ''desc''
       \<lparr>flags = [], ContinueOnError = False\<rparr>"

text \<open>
  The rule of the specification for a suggestion: the subcommand is available, and the
  Levenshtein distance between the lower-cased query and its lower-cased name is at most
  \<open>2\<close>, or its lower-cased name cut to the length of the query is the lower-cased query.
\<close>

definition suggested :: "string \<Rightarrow> 'st Command \<Rightarrow> bool" where
  "suggested name cmd =
     (IsAvailableCommand cmd
      \<and> (Levenshtein (ToLowerCase name) (ToLowerCase (Name (members cmd))) \<le> 2
           \<or> take (length name) (ToLowerCase (Name (members cmd))) = ToLowerCase name))"

text \<open>A runnable subcommand with the use line \<open>help [command]\<close>, on the state \<open>unit\<close>.\<close>

definition help_command :: "unit Command" where
  "help_command =
     Command ((new_Command ''help [command]'')\<lparr>Run := Some (\<lambda>args st. (Inr 0, st))\<rparr>) []"

text \<open>
  A root command that defines all five hooks; each hook appends its name to the state, a
  list of names, and returns \<open>0\<close>.
\<close>

definition logging_hook :: "string \<Rightarrow> (string list) HookType" where
  "logging_hook name args st = (Inr 0, st @ [name])"

definition hooked_command :: "(string list) Command" where
  "hooked_command =
     Command ((new_Command ''app'')
       \<lparr>PersistentPreRun := Some (logging_hook ''PersistentPreRun''),
        PreRun := Some (logging_hook ''PreRun''),
        Run := Some (logging_hook ''Run''),
        PostRun := Some (logging_hook ''PostRun''),
        PersistentPostRun := Some (logging_hook ''PersistentPostRun'')\<rparr>) []"

section \<open>Properties of the splitter\<close>

lemma find_from_None_iff: "find_from i [c] s = None \<longleftrightarrow> c \<notin> set s"
  by (induction s arbitrary: i) auto

lemma find_from_two_Some: "find_from i [c, d] s = Some n \<Longrightarrow> c \<in> set s"
  by (induction s arbitrary: i) (auto split: if_splits)

lemma dash_Ltrim: "CHR ''-'' \<in> set (Ltrim s) \<longleftrightarrow> CHR ''-'' \<in> set s"
  by (induction s) (auto simp: is_trim_char_def)

lemma dash_Rtrim: "CHR ''-'' \<in> set (Rtrim s) \<longleftrightarrow> CHR ''-'' \<in> set s"
proof (induction s rule: Rtrim.induct)
  case (1 s)
  show ?case
  proof (cases "s \<noteq> [] \<and> is_trim_char (last s)")
    case True
    then have s: "s = butlast s @ [last s]" by simp
    have nd: "last s \<noteq> CHR ''-''" using True by (auto simp: is_trim_char_def)
    have "CHR ''-'' \<in> set s \<longleftrightarrow> CHR ''-'' \<in> set (butlast s)"
      using nd by (subst s) auto
    with 1 True show ?thesis by (subst Rtrim.simps) simp
  next
    case False
    then show ?thesis by (subst Rtrim.simps) auto
  qed
qed

lemma is_flag_arg_Trim: "is_flag_arg (Trim s) \<longleftrightarrow> CHR ''-'' \<in> set s"
proof -
  have "is_flag_arg t \<longleftrightarrow> CHR ''-'' \<in> set t" for t
    using find_from_None_iff [of 0 "CHR ''-''" t] find_from_two_Some [of 0 "CHR ''-''" "CHR ''-''" t]
    by (auto simp: is_flag_arg_def str_find_def)
  then show ?thesis by (simp add: Trim_def dash_Rtrim dash_Ltrim)
qed

lemma StripFlags_loop_fst:
  "i \<le> length args \<Longrightarrow>
   fst (StripFlags_loop i args fl) = take i args @ filter (\<lambda>a. CHR ''-'' \<notin> set a) (drop i args)"
proof (induction i args fl rule: StripFlags_loop.induct)
  case (1 i args fl)
  show ?case
  proof (cases "i < length args")
    case False
    with 1(3) show ?thesis by (subst StripFlags_loop.simps) simp
  next
    case lt: True
    then have d: "drop i args = args ! i # drop (Suc i) args"
      by (simp add: Cons_nth_drop_Suc)
    show ?thesis
    proof (cases "is_flag_arg (Trim (args ! i))")
      case True
      have len: "i \<le> length (erase i args)" using lt by (simp add: erase_def)
      have "fst (StripFlags_loop i args fl) =
            fst (StripFlags_loop i (erase i args) (insert_flag (newFlag (Trim (args ! i))) fl))"
        using lt True by (subst StripFlags_loop.simps) simp
      also have "\<dots> = take i (erase i args) @ filter (\<lambda>a. CHR ''-'' \<notin> set a) (drop i (erase i args))"
        using 1(1) [OF lt True len] .
      also have "take i (erase i args) = take i args"
        using lt by (simp add: erase_def)
      also have "drop i (erase i args) = drop (Suc i) args"
        using lt by (simp add: erase_def)
      finally show ?thesis using True d by (simp add: is_flag_arg_Trim)
    next
      case False
      have "fst (StripFlags_loop i args fl) = fst (StripFlags_loop (Suc i) args fl)"
        using lt False by (subst StripFlags_loop.simps) simp
      also have "\<dots> = take (Suc i) args @ filter (\<lambda>a. CHR ''-'' \<notin> set a) (drop (Suc i) args)"
        using 1(2) [OF lt False] lt by simp
      finally show ?thesis using False d lt
        by (simp add: is_flag_arg_Trim take_Suc_conv_app_nth)
    qed
  qed
qed

text \<open>
  Claim C8. For every token sequence (and every flag map pointer, null or not), the
  positional output of \<open>StripFlags\<close> is the input with exactly the tokens containing a
  \<open>-\<close> removed, in the input's order: the tokens the splitter classifies as flags are
  those whose trimmed text contains \<open>"--"\<close> or \<open>"-"\<close>, which is the same as containing a
  \<open>-\<close>, and no token containing a \<open>-\<close> is left in the output.
\<close>

theorem C8_StripFlags_partition:
  "fst (StripFlags args fl) = filter (\<lambda>a. CHR ''-'' \<notin> set a) args
   \<and> filter (\<lambda>a. CHR ''-'' \<in> set a) (fst (StripFlags args fl)) = []
   \<and> is_flag_arg (Trim a) = (CHR ''-'' \<in> set a)"
proof -
  have "fst (StripFlags args fl) = filter (\<lambda>a. CHR ''-'' \<notin> set a) args"
    using StripFlags_loop_fst [of 0 args fl] by (simp add: StripFlags_def)
  then show ?thesis by (simp add: is_flag_arg_Trim)
qed

theorem C8_StripFlags_partition_witness:
  "fst (StripFlags [''print'', ''hello'', ''--loud''] (Some [])) = [''print'', ''hello'']"
  using C8_StripFlags_partition [of "[''print'', ''hello'', ''--loud'']" "Some []"] by simp

section \<open>The flag map of the splitter\<close>

lemma map_insert_keys: "fst ` set (map_insert kv m) = insert (fst kv) (fst ` set m)"
  by (induction kv m rule: map_insert.induct) auto

lemma map_insert_sorted:
  "sorted_wrt (<) (map fst m) \<Longrightarrow> sorted_wrt (<) (map fst (map_insert kv m))"
proof (induction kv m rule: map_insert.induct)
  case (1 k v)
  then show ?case by simp
next
  case (2 k v k' v' m)
  have "k' < x" if "x \<in> fst ` set (map_insert (k, v) m)" "\<not> k < k'" "k \<noteq> k'" for x
    using that 2(2) by (auto simp: map_insert_keys)
  with 2 show ?case by (auto simp: image_iff)
qed

lemma map_of_map_insert:
  "sorted_wrt (<) (map fst m) \<Longrightarrow>
   map_of (map_insert (k, v) m) k' =
     (case map_of m k' of Some w \<Rightarrow> Some w | None \<Rightarrow> if k' = k then Some v else None)"
proof (induction "(k, v)" m rule: map_insert.induct)
  case 1
  then show ?case by simp
next
  case (2 k'' v'' m)
  show ?case
  proof (cases "k = k''")
    case True
    then show ?thesis by (simp split: option.splits)
  next
    case ne: False
    show ?thesis
    proof (cases "k < k''")
      case True
      have "map_of m k = None"
      proof (rule ccontr)
        assume "map_of m k \<noteq> None"
        then have "k \<in> fst ` set m" by (simp add: map_of_eq_None_iff)
        with 2(2) have "k'' < k" by auto
        with True show False by simp
      qed
      with True ne 2(2) show ?thesis by (auto split: option.splits)
    next
      case False
      with ne 2 show ?thesis by (auto split: option.splits)
    qed
  qed
qed

lemma map_of_fold_map_insert:
  "sorted_wrt (<) (map fst m) \<Longrightarrow>
   map_of (fold map_insert es m) k =
     (case map_of m k of Some w \<Rightarrow> Some w | None \<Rightarrow> map_of es k)"
proof (induction es arbitrary: m)
  case Nil
  then show ?case by (simp split: option.splits)
next
  case (Cons e es)
  obtain k' v' where e: "e = (k', v')" by (cases e)
  show ?case
    using Cons.IH [OF map_insert_sorted [OF Cons.prems, of e]] Cons.prems
    by (simp add: e map_of_map_insert split: option.splits)
qed

lemma StripFlags_loop_snd:
  "i \<le> length args \<Longrightarrow>
   snd (StripFlags_loop i args (Some m)) = Some (fold map_insert (flag_entries (drop i args)) m)"
proof (induction i args "Some m" arbitrary: m rule: StripFlags_loop.induct)
  case (1 i args)
  show ?case
  proof (cases "i < length args")
    case False
    with 1(3) show ?thesis by (subst StripFlags_loop.simps) (simp add: flag_entries_def)
  next
    case lt: True
    then have d: "drop i args = args ! i # drop (Suc i) args"
      by (simp add: Cons_nth_drop_Suc)
    show ?thesis
    proof (cases "is_flag_arg (Trim (args ! i))")
      case True
      have len: "i \<le> length (erase i args)" using lt by (simp add: erase_def)
      have dr: "drop i (erase i args) = drop (Suc i) args"
        using lt by (simp add: erase_def)
      have "snd (StripFlags_loop i args (Some m)) =
            snd (StripFlags_loop i (erase i args) (Some (map_insert (newFlag (Trim (args ! i))) m)))"
        using lt True by (subst StripFlags_loop.simps) (simp add: insert_flag_def)
      also have "\<dots> = Some (fold map_insert (flag_entries (drop i (erase i args)))
                          (map_insert (newFlag (Trim (args ! i))) m))"
        using 1(1) [OF lt True _ len] by (simp add: insert_flag_def)
      finally show ?thesis using True d dr by (simp add: flag_entries_def)
    next
      case False
      have "snd (StripFlags_loop i args (Some m)) = snd (StripFlags_loop (Suc i) args (Some m))"
        using lt False by (subst StripFlags_loop.simps) simp
      also have "\<dots> = Some (fold map_insert (flag_entries (drop (Suc i) args)) m)"
        using 1(2) [OF lt False] lt by simp
      finally show ?thesis using False d by (simp add: flag_entries_def)
    qed
  qed
qed

lemma map_of_first_occurrence:
  "i < length xs \<Longrightarrow> P (xs ! i) \<Longrightarrow> f (xs ! i) = (k, v) \<Longrightarrow>
   (\<And>j. j < i \<Longrightarrow> P (xs ! j) \<Longrightarrow> fst (f (xs ! j)) \<noteq> k) \<Longrightarrow>
   map_of (map f (filter P xs)) k = Some v"
proof (induction xs arbitrary: i)
  case Nil
  then show ?case by simp
next
  case (Cons x xs)
  show ?case
  proof (cases i)
    case 0
    with Cons.prems show ?thesis by simp
  next
    case (Suc n)
    have x: "P x \<Longrightarrow> fst (f x) \<noteq> k" using Cons.prems(4) [of 0] Suc by simp
    have "map_of (map f (filter P xs)) k = Some v"
    proof (rule Cons.IH [of n])
      show "n < length xs" using Cons.prems(1) Suc by simp
      show "P (xs ! n)" using Cons.prems(2) Suc by simp
      show "f (xs ! n) = (k, v)" using Cons.prems(3) Suc by simp
      show "fst (f (xs ! j)) \<noteq> k" if "j < n" "P (xs ! j)" for j
        using Cons.prems(4) [of "Suc j"] that Suc by simp
    qed
    with x show ?thesis by (cases "f x") auto
  qed
qed

text \<open>
  Claim C4, as amended. \<open>StripFlags\<close> stores each entry with \<open>std::map::insert\<close>,
  which keeps an entry that is already there. Starting from the empty map, a key is
  associated with the value of the first flag-classified token that carries it: if token
  \<open>i\<close> is flag-classified with key \<open>k\<close> and value \<open>v\<close> and no flag-classified token
  before it has key \<open>k\<close>, the map sends \<open>k\<close> to \<open>v\<close>, whatever follows.
\<close>

theorem C4_first_write_wins:
  assumes "i < length args"
    and "is_flag_arg (Trim (args ! i))"
    and "newFlag (Trim (args ! i)) = (k, v)"
    and "\<forall>j<i. is_flag_arg (Trim (args ! j)) \<longrightarrow> fst (newFlag (Trim (args ! j))) \<noteq> k"
  shows "\<exists>m. snd (StripFlags args (Some [])) = Some m \<and> map_of m k = Some v"
proof -
  have "snd (StripFlags args (Some [])) = Some (fold map_insert (flag_entries args) [])"
    using StripFlags_loop_snd [of 0 args "[]"] by (simp add: StripFlags_def)
  moreover have "map_of (fold map_insert (flag_entries args) []) k = map_of (flag_entries args) k"
    by (simp add: map_of_fold_map_insert)
  moreover have "map_of (flag_entries args) k = Some v"
    unfolding flag_entries_def
    using assms by (intro map_of_first_occurrence [of i]) auto
  ultimately show ?thesis by simp
qed

text \<open>
  Claim C4 as stated fails: for \<open>--x=1\<close> followed by \<open>--x=2\<close> the map does not hold
  the last value \<open>2\<close> for \<open>--x\<close>.
\<close>

theorem C4_counterexample:
  "\<not> (\<exists>m. snd (StripFlags [''--x=1'', ''--x=2''] (Some [])) = Some m \<and> map_of m ''--x'' = Some ''2'')"
proof -
  have "snd (StripFlags [''--x=1'', ''--x=2''] (Some [])) = Some [(''--x'', ''1'')]"
    by code_simp
  then show ?thesis by simp
qed

theorem C4_first_write_wins_witness:
  "\<exists>m. snd (StripFlags [''--y=0'', ''--x=1'', ''--x=2''] (Some [])) = Some m
       \<and> map_of m ''--x'' = Some ''1''"
proof -
  let ?args = "[''--y=0'', ''--x=1'', ''--x=2'']"
  have 1: "(1::nat) < length ?args" by simp
  have 2: "is_flag_arg (Trim (?args ! 1))" by code_simp
  have 3: "newFlag (Trim (?args ! 1)) = (''--x'', ''1'')" by code_simp
  have y: "fst (newFlag (Trim (?args ! 0))) = ''--y''" by code_simp
  have 4: "\<forall>j<(1::nat). is_flag_arg (Trim (?args ! j)) \<longrightarrow> fst (newFlag (Trim (?args ! j))) \<noteq> ''--x''"
  proof (intro allI impI)
    fix j :: nat
    assume "j < 1"
    then have "j = 0" by simp
    then show "fst (newFlag (Trim (?args ! j))) \<noteq> ''--x''" using y by simp
  qed
  show ?thesis using C4_first_write_wins [OF 1 2 3 4] .
qed

section \<open>Flag inheritance\<close>

lemma Lookup_iff: "Lookup F n \<noteq> None \<longleftrightarrow> n \<in> Long ` set (flags F)"
  by (auto simp: Lookup_def find_None_iff)

lemma merge_flags_names:
  "Long ` set (flags (merge_flags src t)) = Long ` set (flags t) \<union> Long ` set src"
proof (induction src arbitrary: t)
  case Nil
  then show ?case by (simp add: merge_flags_def)
next
  case (Cons f src)
  have step: "merge_flags (f # src) t =
              merge_flags src (case Lookup t (Long f) of None \<Rightarrow> Add_ptr f t | Some _ \<Rightarrow> t)"
    by (simp add: merge_flags_def)
  show ?case
  proof (cases "Lookup t (Long f)")
    case None
    then show ?thesis using Cons.IH [of "Add_ptr f t"] by (auto simp: step Add_ptr_def)
  next
    case (Some g)
    then have "Long f \<in> Long ` set (flags t)" using Lookup_iff [of t "Long f"] by simp
    then show ?thesis using Cons.IH [of t] Some by (auto simp: step)
  qed
qed

lemma merge_flags_same:
  "Long ` set src \<subseteq> Long ` set (flags t) \<Longrightarrow> merge_flags src t = t"
proof (induction src)
  case Nil
  then show ?case by (simp add: merge_flags_def)
next
  case (Cons f src)
  then have "Lookup t (Long f) \<noteq> None" using Lookup_iff [of t "Long f"] by simp
  then obtain g where "Lookup t (Long f) = Some g" by auto
  then have "merge_flags (f # src) t = merge_flags src t" by (simp add: merge_flags_def)
  with Cons show ?case by simp
qed

lemma rmerge_names:
  "Long ` set (flags (MergePersistentFlags_rmerge cmds t)) =
   Long ` set (flags t) \<union> (\<Union>cmd\<in>set cmds. Long ` set (flags (PersistentFlags cmd)))"
  by (induction cmds arbitrary: t) (auto simp: merge_flags_names Size_def)

lemma rmerge_same:
  "(\<And>cmd. cmd \<in> set cmds \<Longrightarrow> Long ` set (flags (PersistentFlags cmd)) \<subseteq> Long ` set (flags t)) \<Longrightarrow>
   MergePersistentFlags_rmerge cmds t = t"
  by (induction cmds) (auto simp: merge_flags_same)

text \<open>
  Claim C10. \<open>MergePersistentFlags\<close> is idempotent on every command of every tree: a
  second call adds nothing, since every long name it meets is already found in the
  command's registry. The same holds for \<open>FullFlags\<close>, registry and tree.
\<close>

theorem C10_MergePersistentFlags_idempotent:
  "MergePersistentFlags (MergePersistentFlags p) = MergePersistentFlags p
   \<and> FullFlags (snd (FullFlags p)) = FullFlags p"
proof -
  obtain f cs up where p: "p = (Command f cs, up)"
    by (cases p, cases "fst p") auto
  define t where "t = MergePersistentFlags_rmerge (f # map frame_members up) (PersistentFlags f)"
  have names: "Long ` set (flags t) =
      Long ` set (flags (PersistentFlags f)) \<union>
      (\<Union>cmd\<in>set (f # map frame_members up). Long ` set (flags (PersistentFlags cmd)))"
    unfolding t_def by (rule rmerge_names)
  have "MergePersistentFlags_rmerge (f\<lparr>PersistentFlags := t\<rparr> # map frame_members up) t = t"
  proof (rule rmerge_same)
    fix cmd assume "cmd \<in> set (f\<lparr>PersistentFlags := t\<rparr> # map frame_members up)"
    then show "Long ` set (flags (PersistentFlags cmd)) \<subseteq> Long ` set (flags t)"
      using names by auto
  qed
  then have idem: "MergePersistentFlags (MergePersistentFlags p) = MergePersistentFlags p"
    by (simp add: p MergePersistentFlags_def t_def)
  then have "FullFlags (snd (FullFlags p)) = FullFlags p"
    by (simp add: FullFlags_def Let_def)
  with idem show ?thesis by simp
qed

theorem C10_MergePersistentFlags_idempotent_witness:
  "MergePersistentFlags (MergePersistentFlags chain_C) = MergePersistentFlags chain_C
   \<and> FullFlags (snd (FullFlags chain_C)) = FullFlags chain_C"
  using C10_MergePersistentFlags_idempotent [of chain_C] .

text \<open>
  Claim C1, as amended. \<open>MergePersistentFlags\<close> does not follow the gating rule of
  \<open>InheritedFlags\<close>: its walk goes on past a parent without persistent flags. After the
  merge every persistent flag of every command above is found by its long name in the
  command's \<open>PersistentFlags\<close> and in its \<open>FullFlags\<close>. \<open>InheritedFlags\<close> does stop:
  it is empty when the parent has no persistent flag.
\<close>

theorem C1_merge_not_gated:
  "(\<forall>fr\<in>set up. \<forall>f\<in>set (flags (PersistentFlags (frame_members fr))).
      Lookup (PersistentFlags (members (fst (MergePersistentFlags (c, up))))) (Long f) \<noteq> None
      \<and> Lookup (fst (FullFlags (c, up))) (Long f) \<noteq> None)
   \<and> (Size (PersistentFlags (frame_members fr0)) = 0 \<longrightarrow>
        flags (InheritedFlags indet (c, fr0 # up')) = [])"
proof -
  obtain m cs where c: "c = Command m cs" by (cases c)
  have A: "Long f \<in> Long ` set (flags (PersistentFlags (members (fst (MergePersistentFlags (c, up))))))"
    if "fr \<in> set up" "f \<in> set (flags (PersistentFlags (frame_members fr)))" for fr f
    using that by (auto simp: c MergePersistentFlags_def rmerge_names)
  have B: "Lookup (PersistentFlags (members (fst (MergePersistentFlags (c, up))))) (Long f) \<noteq> None"
    if "fr \<in> set up" "f \<in> set (flags (PersistentFlags (frame_members fr)))" for fr f
    using A [OF that] Lookup_iff by blast
  have "Long f \<in> Long ` set (flags (fst (FullFlags (c, up))))"
    if "fr \<in> set up" "f \<in> set (flags (PersistentFlags (frame_members fr)))" for fr f
    using A [OF that] by (simp add: FullFlags_def Let_def merge_flags_names)
  then have C: "Lookup (fst (FullFlags (c, up))) (Long f) \<noteq> None"
    if "fr \<in> set up" "f \<in> set (flags (PersistentFlags (frame_members fr)))" for fr f
    using that Lookup_iff by blast
  have D: "Size (PersistentFlags (frame_members fr0)) = 0 \<longrightarrow>
        flags (InheritedFlags indet (c, fr0 # up')) = []"
    by (simp add: InheritedFlags_def)
  show ?thesis using B C D by blast
qed

theorem C1_merge_not_gated_witness:
  "Lookup (PersistentFlags (members (fst (MergePersistentFlags chain_C)))) ''verbose'' \<noteq> None
   \<and> Lookup (fst (FullFlags chain_C)) ''verbose'' \<noteq> None
   \<and> flags (InheritedFlags False chain_C) = []"
proof -
  let ?B = "\<lparr>frame_members = new_Command ''b'', frame_before = [], frame_after = []\<rparr> :: bool Frame"
  let ?A = "\<lparr>frame_members = chain_A, frame_before = [], frame_after = []\<rparr> :: bool Frame"
  have c: "chain_C = (Command (new_Command ''c'') [], [?B, ?A])" by (simp add: chain_C_def)
  have 1: "?A \<in> set [?B, ?A]" by simp
  have 2: "verbose_flag \<in> set (flags (PersistentFlags (frame_members ?A)))" by (simp add: chain_A_def)
  have 3: "Size (PersistentFlags (frame_members ?B)) = 0" by (simp add: Size_def new_Command_def)
  have 4: "Long verbose_flag = ''verbose''" by (simp add: verbose_flag_def)
  show ?thesis
    using C1_merge_not_gated [of "[?B, ?A]" "Command (new_Command ''c'') []" ?B False "[?A]"] 1 2 3 4
    unfolding c by (metis)
qed

text \<open>
  Claim C1 as stated fails: in the chain \<open>a\<close>, \<open>b\<close>, \<open>c\<close> where only \<open>a\<close> declares a
  persistent flag, the merged persistent flags of \<open>c\<close> and its \<open>FullFlags\<close> do hold
  the flag of \<open>a\<close>, while \<open>InheritedFlags\<close> of \<open>c\<close> is empty.
\<close>

theorem C1_counterexample:
  "''verbose'' \<in> set (map Long (flags (PersistentFlags (members (fst (MergePersistentFlags chain_C))))))
   \<and> ''verbose'' \<in> set (map Long (flags (fst (FullFlags chain_C))))
   \<and> map Long (flags (InheritedFlags False chain_C)) = []"
proof -
  have "map Long (flags (PersistentFlags (members (fst (MergePersistentFlags chain_C))))) = [''verbose'']
   \<and> map Long (flags (fst (FullFlags chain_C))) = [''verbose'']
   \<and> map Long (flags (InheritedFlags False chain_C)) = []"
    by code_simp
  then show ?thesis by simp
qed

section \<open>Adding subcommands and the sort flag\<close>

text \<open>
  Claim C9, evaluated. \<open>AddCommand\<close> never clears \<open>IsSorted\<close>. Whatever the flag of a
  fresh parent holds, after adding \<open>b\<close> and then \<open>a\<close> a further \<open>SortSubCommands\<close>
  leaves the subcommands in the order \<open>b\<close>, \<open>a\<close>.
\<close>

theorem C9_AddCommand_after_sort_unsorted:
  "map (\<lambda>c. Name (members c))
     (Commands (SortSubCommands (AddCommand (Command (new_Command ''a'') [])
        (AddCommand (Command (new_Command ''b'') [])
           (Command ((new_Command ''app'')\<lparr>IsSorted := s\<rparr>) []))))) = [''b'', ''a'']"
  by (cases s)
    (simp_all add: AddCommand_def SortSubCommands_def new_Command_def Name_def str_find_def)

section \<open>Registering and parsing flags\<close>

lemma find_snoc:
  "find P (xs @ [x]) = (case find P xs of Some y \<Rightarrow> Some y | None \<Rightarrow> if P x then Some x else None)"
  by (induction xs) auto

lemma stoi_10: "stoi ''10'' = Inr 10" by code_simp
lemma stoi_5: "stoi ''5'' = Inr 5" by code_simp
lemma to_string_5: "to_string 5 = ''5''" by code_simp

text \<open>
  Claim C7. The first entry of the flag map given to \<open>Parse\<close>: a key with two leading
  dashes is looked up among the long names, a key with one leading dash among the short
  names. If no flag of the registry matches, \<open>Parse\<close> throws \<open>UnknownFlagException\<close>
  there, and the state is as before. Otherwise the setter of the first matching flag is
  called with the value of the entry, and \<open>Parse\<close> goes on with the rest of the map
  unless the setter threw.
\<close>

theorem C7_Parse_resolution:
  "Parse F ((''--'' @ n, v) # rest) st =
     (case find (\<lambda>f. Long f = n) (flags F) of
        None \<Rightarrow> (Some (UnknownFlagException (''Unknown flag: '' @ n)), st)
      | Some f \<Rightarrow> (case Setter f v st of
                    (Some e, st') \<Rightarrow> (Some e, st')
                  | (None, st') \<Rightarrow> Parse F rest st'))
   \<and> (\<not> prefix ''-'' n \<longrightarrow>
        Parse F ((''-'' @ n, v) # rest) st =
          (case find (\<lambda>f. Short f = n) (flags F) of
             None \<Rightarrow> (Some (UnknownFlagException (''Unknown flag: '' @ n)), st)
           | Some f \<Rightarrow> (case Setter f v st of
                         (Some e, st') \<Rightarrow> (Some e, st')
                       | (None, st') \<Rightarrow> Parse F rest st')))"
proof -
  have long: "second_is_dash (''--'' @ n)" by (simp add: second_is_dash_def)
  have A: "Parse F ((''--'' @ n, v) # rest) st =
     (case find (\<lambda>f. Long f = n) (flags F) of
        None \<Rightarrow> (Some (UnknownFlagException (''Unknown flag: '' @ n)), st)
      | Some f \<Rightarrow> (case Setter f v st of
                    (Some e, st') \<Rightarrow> (Some e, st')
                  | (None, st') \<Rightarrow> Parse F rest st'))"
    unfolding Parse_def using long by (simp add: find_flag_def split: option.splits)
  have B: "Parse F ((''-'' @ n, v) # rest) st =
          (case find (\<lambda>f. Short f = n) (flags F) of
             None \<Rightarrow> (Some (UnknownFlagException (''Unknown flag: '' @ n)), st)
           | Some f \<Rightarrow> (case Setter f v st of
                         (Some e, st') \<Rightarrow> (Some e, st')
                       | (None, st') \<Rightarrow> Parse F rest st'))"
    if np: "\<not> prefix ''-'' n"
  proof -
    have short: "\<not> second_is_dash (''-'' @ n)"
      using np by (cases n) (auto simp: second_is_dash_def)
    show ?thesis
      unfolding Parse_def using short by (simp add: find_flag_def split: option.splits)
  qed
  show ?thesis using A B by blast
qed

theorem C7_Parse_resolution_witness:
  "Parse (count_registry 0) [(''--count'', ''10'')] (\<lambda>_. 0) = (None, (\<lambda>_. 0)(0 := 10))
   \<and> Parse (count_registry 0) [(''-c'', ''10'')] (\<lambda>_. 0) = (None, (\<lambda>_. 0)(0 := 10))
   \<and> Parse (count_registry 0) [(''--c'', ''10'')] (\<lambda>_. 0) = (Some (UnknownFlagException ''Unknown flag: c''), \<lambda>_. 0)
   \<and> Parse (count_registry 0) [(''-count'', ''10'')] (\<lambda>_. 0) = (Some (UnknownFlagException ''Unknown flag: count''), \<lambda>_. 0)"
proof -
  have e: "Parse G [] st = (None, st)" for G :: "(nat \<Rightarrow> int) Flags" and st
    by (simp add: Parse_def)
  have p1: "\<not> prefix ''-'' ''c''" by simp
  have p2: "\<not> prefix ''-'' ''count''" by simp
  show ?thesis
    using C7_Parse_resolution [of "count_registry 0" "''count''" "''10''" "[]" "\<lambda>_. 0"]
      C7_Parse_resolution [of "count_registry 0" "''c''" "''10''" "[]" "\<lambda>_. 0"] p1 p2
    by (simp add: e count_registry_def Add_ref_def Add_def bind_Convert_def TypeToEnum_int_def stoi_10)
qed

text \<open>
  Claim C6. On a registry without a flag named \<open>count\<close>, registering the \<open>int\<close> flag
  \<open>count\<close>, \<open>c\<close> with default \<open>5\<close>, bound to the variable \<open>r\<close>, sets the variable to
  \<open>5\<close> at once, by the overload that takes the reference and by the overload that takes
  the setter; then parsing \<open>--count\<close> with \<open>10\<close> sets it to \<open>10\<close>, and parsing the
  empty map leaves it at \<open>5\<close>.
\<close>

theorem C6_eager_default:
  assumes "\<forall>f\<in>set (flags F). Long f \<noteq> ''count''"
  shows "Add_ref_default TypeToEnum_int (\<lambda>v s. s(r := v)) ''count'' ''c'' 5 ''desc'' F st =
           (Add_ref TypeToEnum_int (\<lambda>v s. s(r := v)) ''count'' ''c'' ''desc'' F, st(r := 5))
     \<and> Add_default TypeToEnum_int ''count'' ''c'' 5 ''desc''
           (bind_Convert TypeToEnum_int (\<lambda>v s. s(r := v))) F st =
           (Add_ref TypeToEnum_int (\<lambda>v s. s(r := v)) ''count'' ''c'' ''desc'' F, None, st(r := 5))
     \<and> Parse (Add_ref TypeToEnum_int (\<lambda>v s. s(r := v)) ''count'' ''c'' ''desc'' F)
           [(''--count'', ''10'')] (st(r := 5)) = (None, st(r := 10))
     \<and> Parse (Add_ref TypeToEnum_int (\<lambda>v s. s(r := v)) ''count'' ''c'' ''desc'' F)
           [] (st(r := 5)) = (None, st(r := 5))"
proof -
  have f: "find (\<lambda>f. Long f = ''count'') (flags F) = None"
    using assms by (simp add: find_None_iff)
  have 1: "Add_ref_default TypeToEnum_int (\<lambda>v s. s(r := v)) ''count'' ''c'' 5 ''desc'' F st =
           (Add_ref TypeToEnum_int (\<lambda>v s. s(r := v)) ''count'' ''c'' ''desc'' F, st(r := 5))"
    by (simp add: Add_ref_default_def)
  have 2: "Add_default TypeToEnum_int ''count'' ''c'' 5 ''desc''
           (bind_Convert TypeToEnum_int (\<lambda>v s. s(r := v))) F st =
           (Add_ref TypeToEnum_int (\<lambda>v s. s(r := v)) ''count'' ''c'' ''desc'' F, None, st(r := 5))"
    by (simp add: Add_default_def Add_ref_def bind_Convert_def TypeToEnum_int_def to_string_5 stoi_5)
  have 3: "Parse (Add_ref TypeToEnum_int (\<lambda>v s. s(r := v)) ''count'' ''c'' ''desc'' F)
           [(''--count'', ''10'')] (st(r := 5)) = (None, st(r := 10))"
    using f
    by (simp add: Parse_def find_flag_def second_is_dash_def Add_ref_def Add_def find_snoc
        bind_Convert_def TypeToEnum_int_def stoi_10)
  have 4: "Parse (Add_ref TypeToEnum_int (\<lambda>v s. s(r := v)) ''count'' ''c'' ''desc'' F)
           [] (st(r := 5)) = (None, st(r := 5))"
    by (simp add: Parse_def)
  show ?thesis using 1 2 3 4 by blast
qed

theorem C6_eager_default_witness:
  "snd (Add_ref_default TypeToEnum_int (\<lambda>v s. s(0 := v)) ''count'' ''c'' 5 ''desc''
          \<lparr>flags = [], ContinueOnError = False\<rparr> (\<lambda>_. 0)) (0::nat) = 5
   \<and> snd (Parse (count_registry 0) [(''--count'', ''10'')] ((\<lambda>_. 0)(0 := 5))) 0 = 10
   \<and> snd (Parse (count_registry 0) [] ((\<lambda>_. 0)(0 := 5))) 0 = 5"
proof -
  have h: "\<forall>f\<in>set (flags (\<lparr>flags = [], ContinueOnError = False\<rparr> :: (nat \<Rightarrow> int) Flags)). Long f \<noteq> ''count''"
    by simp
  show ?thesis
    using C6_eager_default [OF h, of 0 "\<lambda>_. 0"] by (simp add: count_registry_def)
qed

section \<open>The edit distance and the suggestions\<close>

lemma lev_zero_right: "lev s t i 0 = i"
  by (cases i) auto

lemma lev_step:
  "0 < y \<Longrightarrow> 0 < x \<Longrightarrow>
   int (lev s t y x) =
     min3 (int (lev s t y (x - 1)) + 1) (int (lev s t (y - 1) x) + 1)
          (int (lev s t (y - 1) (x - 1)) + (if s ! (y - 1) = t ! (x - 1) then 0 else 1))"
proof -
  assume "0 < y" "0 < x"
  then obtain i j where y: "y = Suc i" and x: "x = Suc j"
    by (cases y; cases x) auto
  show ?thesis unfolding y x min3_def by (simp add: min_def)
qed

lemma lev_inner_correct:
  "0 < x \<Longrightarrow> 0 < y \<Longrightarrow> y \<le> Suc (length s) \<Longrightarrow> length column = Suc (length s) \<Longrightarrow>
   (\<And>k. k < y \<Longrightarrow> column ! k = int (lev s t k x)) \<Longrightarrow>
   (\<And>k. y \<le> k \<Longrightarrow> k \<le> length s \<Longrightarrow> column ! k = int (lev s t k (x - 1))) \<Longrightarrow>
   last_diagonal = int (lev s t (y - 1) (x - 1)) \<Longrightarrow>
   length (lev_inner s t x y column last_diagonal) = Suc (length s)
   \<and> (\<forall>k\<le>length s. lev_inner s t x y column last_diagonal ! k = int (lev s t k x))"
proof (induction s t x y column last_diagonal rule: lev_inner.induct)
  case (1 s t x y column last_diagonal)
  show ?case
  proof (cases "y \<le> length s")
    case False
    then have y: "y = Suc (length s)" using 1(4) by simp
    have "lev_inner s t x y column last_diagonal = column"
      using False by (subst lev_inner.simps) simp
    then show ?thesis using 1(5) 1(6) y by (simp add: less_Suc_eq_le)
  next
    case True
    let ?v = "min3 (column ! y + 1) (column ! (y - 1) + 1)
                   (last_diagonal + (if s ! (y - 1) = t ! (x - 1) then 0 else 1))"
    let ?column = "column[y := ?v]"
    have cy: "column ! y = int (lev s t y (x - 1))" using 1(7) [of y] True by simp
    have cy1: "column ! (y - 1) = int (lev s t (y - 1) x)" using 1(6) [of "y - 1"] 1(3) by simp
    have v: "?v = int (lev s t y x)"
      using lev_step [OF 1(3) 1(2), of s t] cy cy1 1(8) by simp
    have unfold: "lev_inner s t x y column last_diagonal = lev_inner s t x (Suc y) ?column (column ! y)"
      using True by (subst lev_inner.simps) simp
    have "length (lev_inner s t x (Suc y) ?column (column ! y)) = Suc (length s)
      \<and> (\<forall>k\<le>length s. lev_inner s t x (Suc y) ?column (column ! y) ! k = int (lev s t k x))"
    proof (rule 1(1) [OF True 1(2)])
      show "0 < Suc y" by simp
      show "Suc y \<le> Suc (length s)" using True by simp
      show "length ?column = Suc (length s)" using 1(5) by simp
      show "?column ! k = int (lev s t k x)" if "k < Suc y" for k
      proof (cases "k = y")
        case True
        then show ?thesis using v 1(5) \<open>y \<le> length s\<close> by simp
      next
        case False
        then show ?thesis using that 1(6) [of k] by simp
      qed
      show "?column ! k = int (lev s t k (x - 1))" if "Suc y \<le> k" "k \<le> length s" for k
        using that 1(7) [of k] by simp
      show "column ! y = int (lev s t (Suc y - 1) (x - 1))" using cy by simp
    qed
    then show ?thesis using unfold by simp
  qed
qed

lemma lev_outer_correct:
  "0 < x \<Longrightarrow> x \<le> Suc (length t) \<Longrightarrow> length column = Suc (length s) \<Longrightarrow>
   (\<And>k. 0 < k \<Longrightarrow> k \<le> length s \<Longrightarrow> column ! k = int (lev s t k (x - 1))) \<Longrightarrow>
   (\<forall>k. 0 < k \<and> k \<le> length s \<longrightarrow> lev_outer s t x column ! k = int (lev s t k (length t)))
   \<and> (x \<le> length t \<longrightarrow> lev_outer s t x column ! 0 = int (length t))"
proof (induction s t x column rule: lev_outer.induct)
  case (1 s t x column)
  show ?case
  proof (cases "x \<le> length t")
    case False
    then have x: "x = Suc (length t)" using 1(3) by simp
    have "lev_outer s t x column = column" using False by (subst lev_outer.simps) simp
    then show ?thesis using 1(5) x False by simp
  next
    case True
    let ?c0 = "column[0 := int x]"
    let ?c1 = "lev_inner s t x 1 ?c0 (int x - 1)"
    have unfold: "lev_outer s t x column = lev_outer s t (Suc x) ?c1"
      using True by (subst lev_outer.simps) simp
    have inner: "length ?c1 = Suc (length s) \<and> (\<forall>k\<le>length s. ?c1 ! k = int (lev s t k x))"
    proof (rule lev_inner_correct [OF 1(2)])
      show "0 < (1::nat)" by simp
      show "1 \<le> Suc (length s)" by simp
      show "length ?c0 = Suc (length s)" using 1(4) by simp
      show "?c0 ! k = int (lev s t k x)" if "k < 1" for k
        using that 1(4) by simp
      show "?c0 ! k = int (lev s t k (x - 1))" if "1 \<le> k" "k \<le> length s" for k
        using that 1(5) [of k] by simp
      show "int x - 1 = int (lev s t (1 - 1) (x - 1))" using 1(2) by simp
    qed
    have rec: "(\<forall>k. 0 < k \<and> k \<le> length s \<longrightarrow> lev_outer s t (Suc x) ?c1 ! k = int (lev s t k (length t)))
       \<and> (Suc x \<le> length t \<longrightarrow> lev_outer s t (Suc x) ?c1 ! 0 = int (length t))"
    proof (rule 1(1) [OF True])
      show "0 < Suc x" by simp
      show "Suc x \<le> Suc (length t)" using True by simp
      show "length ?c1 = Suc (length s)" using inner by simp
      show "?c1 ! k = int (lev s t k (Suc x - 1))" if "0 < k" "k \<le> length s" for k
        using that inner by simp
    qed
    have zero: "lev_outer s t (Suc x) ?c1 ! 0 = int (length t)"
    proof (cases "Suc x \<le> length t")
      case True
      then show ?thesis using rec by simp
    next
      case False
      then have x: "x = length t" using True by simp
      have "lev_outer s t (Suc x) ?c1 = ?c1" using False by (subst lev_outer.simps) simp
      then show ?thesis using inner x by simp
    qed
    show ?thesis using rec zero unfold by simp
  qed
qed

lemma lev_outer_result:
  "s \<noteq> [] \<or> t \<noteq> [] \<Longrightarrow>
   lev_outer s t 1 (junk # map int [1..<Suc (length s)]) ! length s = int (Levenshtein s t)"
proof -
  assume ne: "s \<noteq> [] \<or> t \<noteq> []"
  define column where "column = junk # map int [1..<Suc (length s)]"
  have len: "length column = Suc (length s)" by (simp add: column_def del: upt_Suc)
  have init: "column ! k = int (lev s t k (1 - 1))" if kpos: "0 < k" and kle: "k \<le> length s" for k
  proof -
    obtain k' where k: "k = Suc k'" using kpos by (cases k) auto
    have "map int [1..<Suc (length s)] ! k' = int (1 + k')"
      using kle k by (subst nth_map) (auto simp del: upt_Suc)
    then show ?thesis by (simp add: column_def k lev_zero_right del: upt_Suc)
  qed
  have res: "(\<forall>k. 0 < k \<and> k \<le> length s \<longrightarrow> lev_outer s t 1 column ! k = int (lev s t k (length t)))
     \<and> (1 \<le> length t \<longrightarrow> lev_outer s t 1 column ! 0 = int (length t))"
  proof (rule lev_outer_correct)
    show "0 < (1::nat)" by simp
    show "1 \<le> Suc (length t)" by simp
    show "length column = Suc (length s)" by (rule len)
    show "column ! k = int (lev s t k (1 - 1))" if "0 < k" "k \<le> length s" for k
      using init that by blast
  qed
  have "lev_outer s t 1 column ! length s = int (Levenshtein s t)"
  proof (cases "s = []")
    case True
    with ne have "1 \<le> length t" by (cases t) auto
    with res have "lev_outer s t 1 column ! 0 = int (length t)" by blast
    with True show ?thesis by (simp add: Levenshtein_def)
  next
    case False
    then have "0 < length s \<and> length s \<le> length s" by simp
    with res have "lev_outer s t 1 column ! length s = int (lev s t (length s) (length t))"
      by blast
    then show ?thesis by (simp add: Levenshtein_def)
  qed
  then show ?thesis by (simp only: column_def)
qed

text \<open>
  The single-row program computes the distance, except on two empty strings, where it
  returns the cell that was never written.
\<close>

lemma LevenshteinDistance_correct:
  "LevenshteinDistance junk s t True =
     (if s = [] \<and> t = [] then junk else int (Levenshtein (ToLowerCase s) (ToLowerCase t)))"
proof (cases "s = [] \<and> t = []")
  case True
  have "lev_outer [] [] 1 [junk] = [junk]" by (subst lev_outer.simps) simp
  with True show ?thesis by (simp add: LevenshteinDistance_def ToLowerCase_def)
next
  case False
  then have "ToLowerCase s \<noteq> [] \<or> ToLowerCase t \<noteq> []" by (simp add: ToLowerCase_def)
  from lev_outer_result [OF this, of junk]
  have "LevenshteinDistance junk s t True = int (Levenshtein (ToLowerCase s) (ToLowerCase t))"
    by (simp add: LevenshteinDistance_def Let_def ToLowerCase_def del: upt_Suc)
  then show ?thesis using False by (simp only: if_False)
qed


lemma suggest_test:
  "(LevenshteinDistance junk name n True \<le> 2 \<or> take (length name) (ToLowerCase n) = ToLowerCase name)
   = (Levenshtein (ToLowerCase name) (ToLowerCase n) \<le> 2
      \<or> take (length name) (ToLowerCase n) = ToLowerCase name)"
proof (cases "name = [] \<and> n = []")
  case True
  then show ?thesis by (simp add: ToLowerCase_def)
next
  case False
  then have "LevenshteinDistance junk name n True = int (Levenshtein (ToLowerCase name) (ToLowerCase n))"
    using LevenshteinDistance_correct [of junk name n] by (simp only: if_False)
  then show ?thesis by simp
qed

lemma SuggestionsFor_loop_filter:
  "SuggestionsFor_loop junk name cmds = map (\<lambda>cmd. Name (members cmd)) (filter (suggested name) cmds)"
  by (induction cmds) (simp_all add: suggested_def suggest_test)

lemma Levenshtein_kitten: "Levenshtein ''kitten'' ''sitting'' = 3"
  by code_simp

lemma Levenshtein_hlp: "Levenshtein (ToLowerCase ''hlp'') (ToLowerCase ''help'') = 1"
  by code_simp

text \<open>
  Claim C5. For every command, every query and every content of the unwritten cell,
  \<open>SuggestionsFor\<close> returns the names, in the order of \<open>Commands\<close>, of exactly the
  available subcommands whose case-insensitive Levenshtein distance to the query is at
  most \<open>2\<close> or whose lower-cased name, cut to the query's length, is the lower-cased
  query. A query longer than a name never matches that name by the prefix rule. For a
  command whose only subcommand is an available one named \<open>help\<close>, the suggestions for
  \<open>hlp\<close> are \<open>help\<close>.
\<close>

theorem C5_SuggestionsFor:
  "SuggestionsFor junk c name = map (\<lambda>cmd. Name (members cmd)) (filter (suggested name) (Commands c))
   \<and> (length (Name (members cmd)) < length name \<longrightarrow>
        take (length name) (ToLowerCase (Name (members cmd))) \<noteq> ToLowerCase name)
   \<and> (IsAvailableCommand cmd \<and> Name (members cmd) = ''help'' \<longrightarrow>
        SuggestionsFor junk (Command m [cmd]) ''hlp'' = [''help''])"
proof -
  have A: "SuggestionsFor junk c' name' =
           map (\<lambda>cmd. Name (members cmd)) (filter (suggested name') (Commands c'))"
    for c' :: "'a Command" and name'
    by (simp add: SuggestionsFor_def SuggestionsFor_loop_filter)
  have B: "take (length name) (ToLowerCase (Name (members cmd))) \<noteq> ToLowerCase name"
    if "length (Name (members cmd)) < length name"
  proof
    assume "take (length name) (ToLowerCase (Name (members cmd))) = ToLowerCase name"
    then have "length (take (length name) (ToLowerCase (Name (members cmd)))) = length (ToLowerCase name)"
      by simp
    with that show False by (simp add: ToLowerCase_def)
  qed
  have C: "SuggestionsFor junk (Command m [cmd]) ''hlp'' = [''help'']"
    if "IsAvailableCommand cmd \<and> Name (members cmd) = ''help''"
    using that Levenshtein_hlp
    by (simp add: SuggestionsFor_def SuggestionsFor_loop_filter suggested_def)
  show ?thesis using A B C by blast
qed

theorem C5_SuggestionsFor_witness:
  "SuggestionsFor 0 (Command (new_Command ''app'') [help_command]) ''hlp'' = [''help'']
   \<and> take (length ''helpme'') (ToLowerCase (Name (members help_command))) \<noteq> ToLowerCase ''helpme''"
proof -
  have n: "Name (members help_command) = ''help''" by code_simp
  have a: "IsAvailableCommand help_command"
    by (simp add: help_command_def new_Command_def IsRunnable_def)
  have l: "length (Name (members help_command)) < length ''helpme''" by (simp add: n)
  show ?thesis
    using C5_SuggestionsFor [of 0 "Command (new_Command ''app'') [help_command]" "''helpme''" help_command "new_Command ''app''"] a n l
    by blast
qed

section \<open>Dispatch\<close>

text \<open>
  The loop of \<open>Execute\<close> only ever extends the chain of parents of \<open>tmp\<close>: if the chain
  is empty at the end, \<open>tmp\<close> is the root it started from.
\<close>

lemma resolve_chain:
  "\<exists>pre. snd (fst (resolve this tmp args)) = pre @ snd tmp
         \<and> (pre = [] \<longrightarrow> fst (resolve this tmp args) = tmp)"
proof (induction this tmp args rule: resolve.induct)
  case (1 this tmp)
  then show ?case by simp
next
  case (2 this tmp arg args)
  show ?case
  proof (cases "HasAvailableSubCommands this")
    case False
    then show ?thesis by simp
  next
    case avail: True
    show ?thesis
    proof (cases "find_cmd arg [] (Commands (fst tmp))")
      case None
      with avail show ?thesis by simp
    next
      case (Some found)
      obtain before cmd rest where found: "found = (before, cmd, rest)" by (cases found) auto
      define fr where
        "fr = \<lparr>frame_members = members (fst tmp), frame_before = before, frame_after = rest\<rparr>"
      have "\<exists>pre. snd (fst (resolve this (cmd, fr # snd tmp) args)) = pre @ snd (cmd, fr # snd tmp)
               \<and> (pre = [] \<longrightarrow> fst (resolve this (cmd, fr # snd tmp) args) = (cmd, fr # snd tmp))"
        unfolding fr_def
      proof (rule 2 [of found before "(cmd, rest)" cmd rest])
        show "\<not> \<not> HasAvailableSubCommands this" using avail by simp
        show "find_cmd arg [] (Commands (fst tmp)) = Some found" by (rule Some)
        show "(before, cmd, rest) = found" using found by simp
        show "(cmd, rest) = (cmd, rest)" by simp
      qed
      then obtain pre where pre: "snd (fst (resolve this (cmd, fr # snd tmp) args)) = pre @ fr # snd tmp"
        by auto
      have "resolve this tmp (arg # args) = resolve this (cmd, fr # snd tmp) args"
        using avail Some found by (simp add: fr_def)
      then have "snd (fst (resolve this tmp (arg # args))) = (pre @ [fr]) @ snd tmp"
        using pre by simp
      then show ?thesis by blast
    qed
  qed
qed

lemma resolve_at_root:
  "resolve this (c, []) args = ((c', []), rest) \<Longrightarrow> c' = c"
  using resolve_chain [of this "(c, [])" args] by auto

lemma Execute_is_Execute_root: "Execute junk p args st = Execute_root junk (fst (Root p)) args st"
  by (cases p, cases "snd p") (auto simp: Execute_def)

text \<open>
  Claim C3. \<open>Execute\<close> is called on any command \<open>p\<close> of a tree with root
  \<open>fst (Root p)\<close>. If the loop over the positional tokens ends at the root with a token
  \<open>tok\<close> left, and the root has an available subcommand, then \<open>Execute\<close> returns
  \<open>-1\<close>; its only effect is the message on \<open>std::cerr\<close>, which names \<open>tok\<close> and lists
  the suggestions of the root for \<open>tok\<close>; no hook is called, and the state and the tree
  are as before.
\<close>

theorem C3_unknown_command:
  assumes "resolve (fst (Root p)) (fst (Root p), []) (fst (StripFlags args (Some []))) = ((c', []), tok # others)"
    and "HasAvailableSubCommands (fst (Root p))"
  shows "Execute junk p args st =
           \<lparr>returned = Inr (- 1), tree = fst (Root p), state = st,
            events = [Stderr (''Unknown command '' @ tok @ '' for '' @ Name (members (fst (Root p)))
                              @ suggestionsString (SuggestionsFor junk (fst (Root p)) tok))]\<rparr>"
proof -
  define c where "c = fst (Root p)"
  have c': "c' = c" using assms(1) unfolding c_def by (rule resolve_at_root)
  have r: "resolve c (c, []) (fst (StripFlags args (Some []))) = ((c, []), tok # others)"
    using assms(1) unfolding c_def [symmetric] c' .
  have h: "HasAvailableSubCommands c" using assms(2) unfolding c_def .
  have m: "unknown_command junk (c, []) tok =
           ''Unknown command '' @ tok @ '' for '' @ Name (members c)
             @ suggestionsString (SuggestionsFor junk c tok)"
    by (simp add: unknown_command_def CommandPath_def)
  have "Execute_root junk c args st =
          \<lparr>returned = Inr (- 1), tree = c, state = st,
           events = [Stderr (unknown_command junk (c, []) tok)]\<rparr>"
    unfolding Execute_root_def Let_def r using h by simp
  then show ?thesis unfolding Execute_is_Execute_root c_def [symmetric] m .
qed

lemma StripFlags_hlp: "StripFlags [''hlp''] (Some []) = ([''hlp''], Some [])"
  by code_simp

lemma StripFlags_Nil: "StripFlags [] (Some []) = ([], Some [])"
  by code_simp

theorem C3_unknown_command_witness:
  "Execute 0 (Command (new_Command ''app'') [help_command], []) [''hlp''] () =
     \<lparr>returned = Inr (- 1), tree = Command (new_Command ''app'') [help_command], state = (),
      events = [Stderr (''Unknown command hlp for app'' @ [CHR 0x0A, CHR 0x0A] @ ''Did you mean this?''
                        @ [CHR 0x0A] @ ''   help'' @ [CHR 0x0A])]\<rparr>"
proof -
  let ?c = "Command (new_Command ''app'') [help_command]"
  have n: "Name (members help_command) = ''help''" by code_simp
  have a: "IsAvailableCommand help_command"
    by (simp add: help_command_def new_Command_def IsRunnable_def)
  have na: "Name (new_Command ''app'' :: unit Command_members) = ''app''"
    by (simp add: Name_def new_Command_def str_find_def)
  have al: "\<not> HasAlias (members help_command) ''hlp''"
    by (simp add: HasAlias_def help_command_def new_Command_def)
  have h: "HasAvailableSubCommands ?c" using a by (simp add: HasAvailableSubCommands_def)
  have r: "resolve (fst (Root (?c, []))) (fst (Root (?c, [])), []) (fst (StripFlags [''hlp''] (Some [])))
           = ((?c, []), ''hlp'' # [])"
    using h a n al by (simp add: StripFlags_hlp)
  have h': "HasAvailableSubCommands (fst (Root (?c, [])))" using h by simp
  have s: "SuggestionsFor 0 ?c ''hlp'' = [''help'']"
    using a n Levenshtein_hlp
    by (simp add: SuggestionsFor_def SuggestionsFor_loop_filter suggested_def)
  show ?thesis
    using C3_unknown_command [OF r h', of 0 "()"] by (simp add: s na suggestionsString_def)
qed

text \<open>
  Claim C2, evaluated. On a runnable root that defines all five hooks, with no argument,
  \<open>Execute\<close> calls \<open>Run\<close> and nothing else: the state holds the name of \<open>Run\<close> only.
  \<open>Execute\<close> never reads \<open>PersistentPreRun\<close>, \<open>PreRun\<close>, \<open>PostRun\<close> or
  \<open>PersistentPostRun\<close>.
\<close>

theorem C2_only_Run_is_invoked:
  "Execute junk (hooked_command, []) [] [] =
     \<lparr>returned = Inr 0, tree = hooked_command, state = [''Run''],
      events = [Invoked Run_hook ''app'' []]\<rparr>"
  by (simp add: Execute_def Execute_root_def StripFlags_Nil hooked_command_def new_Command_def
      IsRunnable_def HasAvailableSubCommands_def parse_and_run_def FullFlags_def
      MergePersistentFlags_def Size_def merge_flags_def Parse_def call_Run_def logging_hook_def
      CommandPath_def Name_def str_find_def Let_def)

end
